theory Spec2Isabelle
  imports Main
begin

section \<open>Data model of \<open>scripts/run_fcst.py\<close>\<close>

subsection \<open>Configuration values\<close>

text \<open>
  A loaded YAML document: scalars, sequences and nested dictionaries. A Python
  \<open>dict\<close> is an association list read with \<open>map_of\<close>; Python dictionaries hold each
  key once, so the first binding is the binding.
\<close>

datatype cfg =
    Str string
  | Num int
  | Bool bool
  | Null
  | Seq "cfg list"
  | Dict "(string \<times> cfg) list"

type_synonym tree = "(string \<times> cfg) list"

subsection \<open>Exceptions, outcomes, the log\<close>

type_synonym path = "string list"

datatype pyerr =
    KeyError string
  | NameError string
  | TypeError string
  | AttributeError string
  | FileExistsError path
  | FileNotFoundError path
  | IsADirectoryError path
  | NotADirectoryError path
  | ExternalError string

text \<open>
  How a call ends: it returns a value, an exception leaves it, or \<open>sys.exit(n)\<close>
  was called (Python's \<open>SystemExit\<close>, kept apart from the other exceptions because
  it carries the exit status).
\<close>

datatype 'a outcome = Return 'a | Raise pyerr | Exit int

datatype level = INFO | ERROR

type_synonym log = "(level \<times> string) list"

text \<open>\<open>sep.join(xs)\<close>\<close>

fun str_join :: "string \<Rightarrow> string list \<Rightarrow> string" where
  "str_join sep [] = []"
| "str_join sep [x] = x"
| "str_join sep (x # y # ys) = x @ sep @ str_join sep (y # ys)"

section \<open>\<open>_walk_key_path\<close>\<close>

text \<open>
  The loop of \<open>_walk_key_path\<close> (lines 39-50), one call per iteration. The loop
  variables are \<open>config\<close>, \<open>keys\<close> and \<open>pathstr\<close>; \<open>lg\<close> is the log written so far.
  \<open>config[key]\<close> raises \<open>KeyError\<close> on an absent key, which the handler logs and
  re-raises; a value that is not a \<open>dict\<close> is logged and ends in \<open>sys.exit(1)\<close>.
\<close>

fun walk_loop :: "tree \<Rightarrow> string list \<Rightarrow> string \<Rightarrow> string list \<Rightarrow> log \<Rightarrow> log \<times> tree outcome" where
  "walk_loop config keys pathstr [] lg = (lg, Return config)"
| "walk_loop config keys pathstr (key # rest) lg =
     (let keys' = keys @ [key];
          pathstr' = str_join '' -> '' keys'
      in case map_of config key of
           None \<Rightarrow> (lg @ [(ERROR, ''Bad config path: '' @ pathstr')], Raise (KeyError key))
         | Some subconfig \<Rightarrow>
             (case subconfig of
                Dict d \<Rightarrow> walk_loop d keys' pathstr' rest lg
              | _ \<Rightarrow> (lg @ [(ERROR, ''Value at '' @ pathstr' @ '' must be a dictionary'')], Exit 1)))"

definition walk_key_path :: "tree \<Rightarrow> string list \<Rightarrow> log \<Rightarrow> log \<times> tree outcome" where
  "walk_key_path config key_path lg = walk_loop config [] ''<unknown>'' key_path lg"

subsection \<open>What the specification calls the value at a path\<close>

text \<open>
  The specification's words, not the code: the value found by descending from a
  value along a sequence of keys, each step entering a nested tree. A prefix of a
  path "resolves to a nested tree" when this lookup gives a \<open>Dict\<close>.
\<close>

fun value_at :: "cfg \<Rightarrow> string list \<Rightarrow> cfg option" where
  "value_at v [] = Some v"
| "value_at (Dict d) (k # ks) =
     (case map_of d k of None \<Rightarrow> None | Some v \<Rightarrow> value_at v ks)"
| "value_at _ (k # ks) = None"

definition is_tree :: "cfg option \<Rightarrow> bool" where
  "is_tree r = (case r of Some (Dict d) \<Rightarrow> True | _ \<Rightarrow> False)"

definition scenario_A_config :: tree where
  "scenario_A_config = [(''workflow'', Dict [(''FIXlam'', Str ''/out'')])]"

section \<open>Paths and the file system\<close>

text \<open>
  A \<open>pathlib\<close> path is its tuple of parts: \<open>Path("/out/data.nc").parts\<close> is
  \<open>("/", "out", "data.nc")\<close>. \<open>Path(s)\<close> splits at \<open>/\<close>, drops empty and \<open>.\<close>
  components and keeps the root (\<open>//\<close> only when exactly two slashes lead).
\<close>

definition is_root :: "string \<Rightarrow> bool" where
  "is_root s = (s = ''/'' \<or> s = ''//'')"

fun split_on :: "char \<Rightarrow> string \<Rightarrow> string list" where
  "split_on c [] = [[]]"
| "split_on c (x # xs) =
     (if x = c then [] # split_on c xs
      else (case split_on c xs of [] \<Rightarrow> [[x]] | y # ys \<Rightarrow> (x # y) # ys))"

definition Path :: "string \<Rightarrow> path" where
  "Path s =
     (let root = (if take 2 s = ''//'' \<and> take 3 s \<noteq> ''///'' then ''//''
                  else if take 1 s = ''/'' then ''/'' else []);
          parts = filter (\<lambda>c. c \<noteq> [] \<and> c \<noteq> ''.'') (split_on CHR ''/'' s)
      in if root = [] then parts else root # parts)"

definition is_absolute :: "path \<Rightarrow> bool" where
  "is_absolute p = (case p of [] \<Rightarrow> False | r # cs \<Rightarrow> is_root r)"

text \<open>\<open>path.name\<close>: the last part, empty for the empty path and for a bare root.\<close>

definition path_name :: "path \<Rightarrow> string" where
  "path_name p = (if p = [] \<or> (length p = 1 \<and> is_root (hd p)) then [] else last p)"

text \<open>\<open>d / s\<close>: an absolute right operand replaces the left one.\<close>

definition joinpath :: "path \<Rightarrow> string \<Rightarrow> path" where
  "joinpath d s = (let q = Path s in if is_absolute q then q else d @ q)"

text \<open>\<open>str(path)\<close>\<close>

definition path_str :: "path \<Rightarrow> string" where
  "path_str p =
     (case p of
        [] \<Rightarrow> ''.''
      | r # cs \<Rightarrow> if is_root r then r @ str_join ''/'' cs else str_join ''/'' p)"

text \<open>
  The file system maps a path to what is there, and a path is looked up as it is
  written. The model is therefore exact for paths whose directory part is written
  through directories only: a symbolic link standing for a directory on the way to
  an entry, and a \<open>..\<close> before the last component, are not interpreted. Access
  rights and the limits of a file system (length of a name, space) are not
  modelled: every operation is permitted. File contents play no part in the script
  and are left out.
\<close>

datatype node = File | Dir | Symlink path

type_synonym fs = "path \<rightharpoonup> node"

record world =
  files :: fs
  environ :: "string \<rightharpoonup> string"
  logged :: log

definition is_symlink :: "fs \<Rightarrow> path \<Rightarrow> bool" where
  "is_symlink f p = (case f p of Some (Symlink t) \<Rightarrow> True | _ \<Rightarrow> False)"

text \<open>
  \<open>stat\<close> follows a symbolic link in the last component, a relative target being
  read from the link's directory. Linux follows up to 40 links and fails on the
  next one, so 41 entries may be read.
\<close>

fun stat_node :: "nat \<Rightarrow> fs \<Rightarrow> path \<Rightarrow> node option" where
  "stat_node 0 f p = None"
| "stat_node (Suc n) f p =
     (case f p of
        Some (Symlink t) \<Rightarrow> stat_node n f (if is_absolute t then t else butlast p @ t)
      | r \<Rightarrow> r)"

definition is_file :: "fs \<Rightarrow> path \<Rightarrow> bool" where
  "is_file f p = (stat_node 41 f p = Some File)"

definition unlink :: "fs \<Rightarrow> path \<Rightarrow> pyerr + fs" where
  "unlink f p =
     (case f p of
        None \<Rightarrow> Inl (FileNotFoundError p)
      | Some Dir \<Rightarrow> Inl (IsADirectoryError p)
      | Some n \<Rightarrow> Inr (f(p := None)))"

text \<open>
  What is found where a directory is wanted: the empty path (the working directory)
  and a bare root are directories whatever the map holds.
\<close>

definition dir_at :: "fs \<Rightarrow> path \<Rightarrow> node option" where
  "dir_at f q = (if path_name q = [] then Some Dir else f q)"

text \<open>
  \<open>linkname.symlink_to(target)\<close> is \<open>os.symlink\<close>: the directory of the link must
  exist, and the link's own path must be free, whatever occupies it. The working
  directory and the root are always taken, and so is \<open>..\<close> inside a directory: it
  is that directory's parent.
\<close>

definition symlink_to :: "fs \<Rightarrow> path \<Rightarrow> path \<Rightarrow> pyerr + fs" where
  "symlink_to f p target =
     (if path_name p = [] then Inl (FileExistsError p)
      else case dir_at f (butlast p) of
        None \<Rightarrow> Inl (FileNotFoundError p)
      | Some Dir \<Rightarrow>
          (if last p = ''..'' \<or> f p \<noteq> None then Inl (FileExistsError p)
           else Inr (f(p \<mapsto> Symlink target)))
      | Some n \<Rightarrow> Inl (NotADirectoryError p))"

section \<open>\<open>link_files\<close>\<close>

text \<open>
  One call per iteration of the loop of lines 25-31. An exception leaves the loop
  with the file system as it is at that moment.
\<close>

fun link_files :: "path \<Rightarrow> string list \<Rightarrow> world \<Rightarrow> world \<times> unit outcome" where
  "link_files dest_dir [] w = (w, Return ())"
| "link_files dest_dir (fpath # rest) w =
     (let path = Path fpath;
          linkname = joinpath dest_dir (path_name path)
      in case (if is_symlink (files w) linkname then unlink (files w) linkname
               else Inr (files w)) of
           Inl e \<Rightarrow> (w, Raise e)
         | Inr f1 \<Rightarrow>
             (let w1 = w\<lparr>files := f1,
                          logged := logged w @
                            [(INFO, ''Linking '' @ path_str linkname @ '' -> '' @ path_str path)]\<rparr>
              in case symlink_to f1 linkname path of
                   Inl e \<Rightarrow> (w1, Raise e)
                 | Inr f2 \<Rightarrow> link_files dest_dir rest (w1\<lparr>files := f2\<rparr>)))"

text \<open>
  Two notions for stating what \<open>link_files\<close> does: the path of the link made for
  a source (lines 26-27), and a path being taken by something that is not a
  symbolic link, that is by a regular file or a directory.
\<close>

definition link_name :: "path \<Rightarrow> string \<Rightarrow> path" where
  "link_name dest_dir fpath = joinpath dest_dir (path_name (Path fpath))"

definition occupied :: "fs \<Rightarrow> path \<Rightarrow> bool" where
  "occupied f p = (f p \<noteq> None \<and> \<not> is_symlink f p)"



section \<open>\<open>_walk_key_path\<close> over a store of objects\<close>

text \<open>
  Python passes the configuration by reference, so whether the walk changes the
  caller's tree is a question about the store. Here dictionaries and lists are
  objects at addresses, a value inside them is a scalar or a reference, and the
  variable \<open>config\<close> holds an address. \<open>keys\<close> and \<open>pathstr\<close> are locals of the
  call, built afresh and never part of the configuration. The loop returns the
  store together with the log and the outcome.
\<close>

datatype hval = HStr string | HNum int | HBool bool | HNull | HRef nat

datatype hobj = HDict "(string \<times> hval) list" | HList "hval list"

type_synonym heap = "nat \<rightharpoonup> hobj"

text \<open>\<open>isinstance(subconfig, dict)\<close>\<close>

definition isinstance_dict :: "heap \<Rightarrow> hval \<Rightarrow> bool" where
  "isinstance_dict h v =
     (case v of
        HRef a \<Rightarrow> (case h a of Some (HDict d) \<Rightarrow> True | _ \<Rightarrow> False)
      | _ \<Rightarrow> False)"

fun walk_loop_heap ::
  "heap \<Rightarrow> nat \<Rightarrow> string list \<Rightarrow> string \<Rightarrow> string list \<Rightarrow> log \<Rightarrow> heap \<times> log \<times> nat outcome" where
  "walk_loop_heap h config keys pathstr [] lg = (h, lg, Return config)"
| "walk_loop_heap h config keys pathstr (key # rest) lg =
     (let keys' = keys @ [key];
          pathstr' = str_join '' -> '' keys'
      in case h config of
           Some (HDict d) \<Rightarrow>
             (case map_of d key of
                None \<Rightarrow> (h, lg @ [(ERROR, ''Bad config path: '' @ pathstr')], Raise (KeyError key))
              | Some subconfig \<Rightarrow>
                  (if \<not> isinstance_dict h subconfig
                   then (h, lg @ [(ERROR, ''Value at '' @ pathstr' @ '' must be a dictionary'')], Exit 1)
                   else (case subconfig of
                           HRef a \<Rightarrow> walk_loop_heap h a keys' pathstr' rest lg
                         | _ \<Rightarrow> (h, lg, Raise (TypeError ''not a dictionary'')))))
         | _ \<Rightarrow> (h, lg, Raise (TypeError ''indices must be integers'')))"

definition walk_key_path_heap :: "heap \<Rightarrow> nat \<Rightarrow> string list \<Rightarrow> log \<Rightarrow> heap \<times> log \<times> nat outcome" where
  "walk_key_path_heap h config key_path lg = walk_loop_heap h config [] ''<unknown>'' key_path lg"

text \<open>The tree an address stands for, read to a given depth.\<close>

fun tree_of :: "nat \<Rightarrow> heap \<Rightarrow> hval \<Rightarrow> cfg option"
  and trees_of :: "nat \<Rightarrow> heap \<Rightarrow> hval list \<Rightarrow> cfg list option"
  and items_of :: "nat \<Rightarrow> heap \<Rightarrow> (string \<times> hval) list \<Rightarrow> tree option" where
  "tree_of n h (HStr s) = Some (Str s)"
| "tree_of n h (HNum i) = Some (Num i)"
| "tree_of n h (HBool b) = Some (Bool b)"
| "tree_of n h HNull = Some Null"
| "tree_of 0 h (HRef a) = None"
| "tree_of (Suc n) h (HRef a) =
     (case h a of
        None \<Rightarrow> None
      | Some (HDict d) \<Rightarrow> map_option Dict (items_of n h d)
      | Some (HList xs) \<Rightarrow> map_option Seq (trees_of n h xs))"
| "trees_of n h [] = Some []"
| "trees_of n h (v # vs) =
     (case tree_of n h v of
        None \<Rightarrow> None
      | Some c \<Rightarrow> map_option ((#) c) (trees_of n h vs))"
| "items_of n h [] = Some []"
| "items_of n h ((k, v) # kvs) =
     (case tree_of n h v of
        None \<Rightarrow> None
      | Some c \<Rightarrow> map_option ((#) (k, c)) (items_of n h kvs))"

section \<open>The names of the module\<close>

text \<open>
  A name that a function body does not assign is looked up among the module's
  globals when the line runs, and \<open>NameError\<close> is raised when it is bound neither
  there nor among the builtins. The globals of \<open>run_fcst.py\<close> are its imports
  (lines 6-18) and its four \<open>def\<close>s; no builtin is called \<open>_link_files\<close>, \<open>glob\<close>,
  \<open>task_rundir\<close> or \<open>run_fv3\<close>.
\<close>

datatype gobj =
    Imported string
  | Fn_link_files
  | Fn_walk_key_path
  | Fn_parse_args
  | Fn_run_fcst

definition module_globals :: "(string \<times> gobj) list" where
  "module_globals =
     [(''dt'', Imported ''datetime''),
      (''logging'', Imported ''logging''),
      (''os'', Imported ''os''),
      (''re'', Imported ''re''),
      (''sys'', Imported ''sys''),
      (''ArgumentParser'', Imported ''argparse.ArgumentParser''),
      (''deepcopy'', Imported ''copy.deepcopy''),
      (''Path'', Imported ''pathlib.Path''),
      (''uwlink'', Imported ''uwtools.api.fs.link''),
      (''use_uwtools_logger'', Imported ''uwtools.api.logging.use_uwtools_logger''),
      (''FV3'', Imported ''uwtools.api.fv3.FV3''),
      (''get_yaml_config'', Imported ''uwtools.api.config.get_yaml_config''),
      (''link_files'', Fn_link_files),
      (''_walk_key_path'', Fn_walk_key_path),
      (''parse_args'', Fn_parse_args),
      (''run_fcst'', Fn_run_fcst)]"

definition load_global :: "string \<Rightarrow> pyerr + gobj" where
  "load_global n =
     (case map_of module_globals n of
        None \<Rightarrow> Inl (NameError n)
      | Some g \<Rightarrow> Inr g)"

section \<open>\<open>run_fcst\<close>\<close>

text \<open>
  The collaborators the script imports are parameters: the configuration loader,
  the driver's constructor (its result is the driver's \<open>config\<close> block), the driver's
  \<open>run\<close>, which may do anything to the world, the directory listing behind \<open>glob\<close>,
  and \<open>argparse\<close>. \<open>'c\<close> is the type of the cycle, a \<open>datetime\<close>.
\<close>

record 'c ext =
  get_yaml_config :: "path \<Rightarrow> world \<Rightarrow> tree outcome"
  FV3 :: "path \<Rightarrow> 'c \<Rightarrow> string list \<Rightarrow> world \<Rightarrow> tree outcome"
  FV3_run :: "path \<Rightarrow> 'c \<Rightarrow> string list \<Rightarrow> world \<Rightarrow> world \<times> unit outcome"
  glob_glob :: "fs \<Rightarrow> string \<Rightarrow> string list"
  argparse :: "string list \<Rightarrow> (path \<times> 'c \<times> string list \<times> string) outcome"

text \<open>\<open>v[k]\<close> with a string \<open>k\<close>\<close>

fun subscript :: "cfg \<Rightarrow> string \<Rightarrow> pyerr + cfg" where
  "subscript (Dict d) k = (case map_of d k of None \<Rightarrow> Inl (KeyError k) | Some v \<Rightarrow> Inr v)"
| "subscript (Str s) k = Inl (TypeError ''string indices must be integers'')"
| "subscript (Seq xs) k = Inl (TypeError ''list indices must be integers or slices'')"
| "subscript v k = Inl (TypeError ''object is not subscriptable'')"

text \<open>\<open>Path(v)\<close> for a value of the configuration\<close>

fun Path_of :: "cfg \<Rightarrow> pyerr + path" where
  "Path_of (Str s) = Inr (Path s)"
| "Path_of v = Inl (TypeError ''expected str, bytes or os.PathLike object'')"

text \<open>Line 105: \<open>Path(fv3_driver.config["rundir"])\<close>\<close>

definition rundir_of :: "tree \<Rightarrow> pyerr + path" where
  "rundir_of driver_config =
     (case subscript (Dict driver_config) ''rundir'' of
        Inl e \<Rightarrow> Inl e
      | Inr v \<Rightarrow> Path_of v)"

text \<open>Line 114: \<open>Path(expt_config["workflow"]["FIXlam"])\<close>\<close>

definition fix_lam_path_of :: "tree \<Rightarrow> pyerr + path" where
  "fix_lam_path_of expt_config =
     (case subscript (Dict expt_config) ''workflow'' of
        Inl e \<Rightarrow> Inl e
      | Inr workflow \<Rightarrow>
          (case subscript workflow ''FIXlam'' of
             Inl e \<Rightarrow> Inl e
           | Inr v \<Rightarrow> Path_of v))"

text \<open>\<open>g.glob\<close>, and a call \<open>g(dest_dir=..., files=...)\<close>, for a global \<open>g\<close>\<close>

definition getattr_glob :: "gobj \<Rightarrow> pyerr + unit" where
  "getattr_glob g = (if g = Imported ''glob'' then Inr () else Inl (AttributeError ''glob''))"

definition call_dest_dir_files :: "gobj \<Rightarrow> path \<Rightarrow> string list \<Rightarrow> world \<Rightarrow> world \<times> unit outcome" where
  "call_dest_dir_files g dest_dir fs w =
     (case g of
        Fn_link_files \<Rightarrow> link_files dest_dir fs w
      | Imported m \<Rightarrow> (w, Raise (ExternalError m))
      | _ \<Rightarrow> (w, Raise (TypeError ''got an unexpected keyword argument dest_dir'')))"

text \<open>Lines 113-123, entered once the driver's marker has been seen.\<close>

definition deliver :: "'c ext \<Rightarrow> tree \<Rightarrow> path \<Rightarrow> world \<Rightarrow> world \<times> unit outcome" where
  "deliver X expt_config rundir w =
     (case fix_lam_path_of expt_config of
        Inl e \<Rightarrow> (w, Raise e)
      | Inr fix_lam_path \<Rightarrow>
     (case load_global ''_link_files'' of
        Inl e \<Rightarrow> (w, Raise e)
      | Inr callee \<Rightarrow>
     (case load_global ''glob'' of
        Inl e \<Rightarrow> (w, Raise e)
      | Inr glob_module \<Rightarrow>
     (case getattr_glob glob_module of
        Inl e \<Rightarrow> (w, Raise e)
      | Inr u \<Rightarrow>
     (case call_dest_dir_files callee fix_lam_path
             (glob_glob X (files w) (path_str (joinpath rundir ''*.nc''))) w of
        (w', Raise e) \<Rightarrow> (w', Raise e)
      | (w', Exit n) \<Rightarrow> (w', Exit n)
      | (w', Return u) \<Rightarrow>
     (case load_global ''task_rundir'' of
        Inl e \<Rightarrow> (w', Raise e)
      | Inr task_rundir \<Rightarrow>
          (w', Raise (TypeError ''unsupported operand type(s) for /''))))))))"

definition run_fcst ::
  "'c ext \<Rightarrow> path \<Rightarrow> 'c \<Rightarrow> string list \<Rightarrow> string \<Rightarrow> world \<Rightarrow> world \<times> unit outcome" where
  "run_fcst X config_file cycle key_path member w0 =
     (case get_yaml_config X config_file w0 of
        Raise e \<Rightarrow> (w0, Raise e)
      | Exit n \<Rightarrow> (w0, Exit n)
      | Return expt_config \<Rightarrow>
     (let w1 = w0\<lparr>environ := (environ w0)(''MEMBER'' \<mapsto> member)\<rparr>
      in case FV3 X config_file cycle key_path w1 of
        Raise e \<Rightarrow> (w1, Raise e)
      | Exit n \<Rightarrow> (w1, Exit n)
      | Return driver_config \<Rightarrow>
     (case rundir_of driver_config of
        Inl e \<Rightarrow> (w1, Raise e)
      | Inr rundir \<Rightarrow>
     (let w2 = w1\<lparr>logged := logged w1 @ [(INFO, ''Will run FV3 in '' @ path_str rundir)]\<rparr>
      in case FV3_run X config_file cycle key_path w2 of
        (w3, Raise e) \<Rightarrow> (w3, Raise e)
      | (w3, Exit n) \<Rightarrow> (w3, Exit n)
      | (w3, Return u) \<Rightarrow>
          (if \<not> is_file (files w3) (joinpath rundir ''runscript.fv3.done'')
           then (w3\<lparr>logged := logged w3 @
                   [(ERROR, ''Error occurred running FV3. Please see component error logs.'')]\<rparr>,
                 Exit 1)
           else deliver X expt_config rundir w3)))))"

text \<open>
  The status the process ends with when the outcome reaches the top of the script:
  0 after a normal return, 1 after an uncaught exception, and the argument of
  \<open>sys.exit\<close> otherwise.
\<close>

definition exit_status :: "'a outcome \<Rightarrow> int" where
  "exit_status r = (case r of Return v \<Rightarrow> 0 | Raise e \<Rightarrow> 1 | Exit n \<Rightarrow> n mod 256)"

text \<open>Lines 126-136, after the logger is set up.\<close>

definition main :: "'c ext \<Rightarrow> string list \<Rightarrow> world \<Rightarrow> world \<times> unit outcome" where
  "main X argv w =
     (case argparse X argv of
        Raise e \<Rightarrow> (w, Raise e)
      | Exit n \<Rightarrow> (w, Exit n)
      | Return (config_file, cycle, key_path, member) \<Rightarrow>
          (case load_global ''run_fv3'' of
             Inl e \<Rightarrow> (w, Raise e)
           | Inr callee \<Rightarrow>
               (case callee of
                  Fn_run_fcst \<Rightarrow> run_fcst X config_file cycle key_path member w
                | Imported m \<Rightarrow> (w, Raise (ExternalError m))
                | _ \<Rightarrow> (w, Raise (TypeError ''got an unexpected keyword argument config_file'')))))"

subsection \<open>The run of scenario B\<close>

definition scenario_B_files :: fs where
  "scenario_B_files =
     [[''/''] \<mapsto> Dir,
      [''/'', ''out''] \<mapsto> Dir,
      [''/'', ''run''] \<mapsto> Dir,
      [''/'', ''run'', ''runscript.fv3.done''] \<mapsto> File,
      [''/'', ''run'', ''data.nc''] \<mapsto> File]"

definition scenario_B_world :: world where
  "scenario_B_world = \<lparr>files = scenario_B_files, environ = Map.empty, logged = []\<rparr>"

text \<open>
  The driver has already run: its block names \<open>/run\<close> as the run directory, \<open>run\<close>
  returns at once, and the listing gives every entry of that kind the world has.
\<close>

definition scenario_B_ext :: "unit ext" where
  "scenario_B_ext =
     \<lparr>get_yaml_config = (\<lambda>p w. Return scenario_A_config),
      FV3 = (\<lambda>p c k w. Return [(''rundir'', Str ''/run'')]),
      FV3_run = (\<lambda>p c k w. (w, Return ())),
      glob_glob = (\<lambda>f s. if s = ''/run/*.nc'' \<and> f [''/'', ''run'', ''data.nc''] \<noteq> None
                           then [''/run/data.nc''] else []),
      argparse = (\<lambda>argv. Return ([''config.yaml''], (), [''task_run_fcst'', ''fv3''], ''000''))\<rparr>"

text \<open>The world of scenario C: the driver's marker is not in \<open>/run\<close>.\<close>

definition scenario_C_world :: world where
  "scenario_C_world =
     \<lparr>files = [[''/''] \<mapsto> Dir,
               [''/'', ''out''] \<mapsto> Dir,
               [''/'', ''run''] \<mapsto> Dir,
               [''/'', ''run'', ''data.nc''] \<mapsto> File],
      environ = Map.empty,
      logged = []\<rparr>"

text \<open>The same world with a regular file already at \<open>/out/data.nc\<close>.\<close>

definition collision_world :: world where
  "collision_world =
     scenario_B_world\<lparr>files := scenario_B_files([''/'', ''out'', ''data.nc''] \<mapsto> File)\<rparr>"

section \<open>Properties of \<open>_walk_key_path\<close>\<close>

lemma walk_loop_resolves:
  "value_at (Dict d) rest = Some (Dict s) \<Longrightarrow> walk_loop d keys p rest lg = (lg, Return s)"
proof (induction rest arbitrary: d keys p)
  case Nil
  then show ?case by simp
next
  case (Cons k rest)
  from Cons.prems obtain v where v: "map_of d k = Some v" "value_at v rest = Some (Dict s)"
    by (auto split: option.splits)
  show ?case
  proof (cases v)
    case (Dict e)
    with v Cons.IH show ?thesis by simp
  qed (use v in \<open>cases rest; simp\<close>)+
qed

lemma walk_loop_missing:
  "i < length rest \<Longrightarrow> value_at (Dict d) (take i rest) = Some (Dict e) \<Longrightarrow>
   map_of e (rest ! i) = None \<Longrightarrow>
   walk_loop d keys p rest lg =
     (lg @ [(ERROR, ''Bad config path: '' @ str_join '' -> '' (keys @ take (Suc i) rest))],
      Raise (KeyError (rest ! i)))"
proof (induction rest arbitrary: i d keys p)
  case Nil
  then show ?case by simp
next
  case (Cons k rest)
  show ?case
  proof (cases i)
    case 0
    with Cons.prems show ?thesis by simp
  next
    case (Suc j)
    with Cons.prems obtain v where v: "map_of d k = Some v" "value_at v (take j rest) = Some (Dict e)"
      by (auto split: option.splits)
    from Suc Cons.prems have j: "j < length rest" "map_of e (rest ! j) = None" by simp_all
    show ?thesis
    proof (cases v)
      case (Dict f)
      with v j Suc Cons.IH [of j f "keys @ [k]"] show ?thesis by simp
    qed (use v j in \<open>cases "take j rest"; simp\<close>)+
  qed
qed

lemma walk_loop_not_tree:
  "i < length rest \<Longrightarrow> value_at (Dict d) (take (Suc i) rest) = Some v \<Longrightarrow>
   \<not> is_tree (Some v) \<Longrightarrow>
   walk_loop d keys p rest lg =
     (lg @ [(ERROR, ''Value at '' @ str_join '' -> '' (keys @ take (Suc i) rest) @
                    '' must be a dictionary'')],
      Exit 1)"
proof (induction rest arbitrary: i d keys p)
  case Nil
  then show ?case by simp
next
  case (Cons k rest)
  show ?case
  proof (cases i)
    case 0
    with Cons.prems show ?thesis
      by (cases v) (auto simp: is_tree_def split: option.splits)
  next
    case (Suc j)
    with Cons.prems obtain u where u: "map_of d k = Some u" "value_at u (take (Suc j) rest) = Some v"
      by (auto split: option.splits)
    from Suc Cons.prems have j: "j < length rest" by simp
    show ?thesis
    proof (cases u)
      case (Dict f)
      with u j Suc Cons.prems(3) Cons.IH [of j f "keys @ [k]"] show ?thesis by simp
    qed (use u j in \<open>cases rest; simp\<close>)+
  qed
qed

text \<open>
  Claim C1. For every configuration tree and every non-empty key path each of whose
  prefixes resolves to a nested tree, \<open>_walk_key_path\<close> returns, without logging
  and without an error, exactly the sub-tree found at the end of the path.
\<close>

theorem resolve_returns_subtree:
  assumes "key_path \<noteq> []"
    and "\<forall>n. 0 < n \<and> n \<le> length key_path \<longrightarrow>
           is_tree (value_at (Dict config) (take n key_path))"
  shows "\<exists>s. value_at (Dict config) key_path = Some (Dict s) \<and>
             walk_key_path config key_path lg = (lg, Return s)"
proof -
  from assms have "is_tree (value_at (Dict config) (take (length key_path) key_path))"
    by (metis length_greater_0_conv order_refl)
  then obtain s where "value_at (Dict config) key_path = Some (Dict s)"
    by (auto simp: is_tree_def split: option.splits cfg.splits)
  then show ?thesis
    by (auto simp: walk_key_path_def walk_loop_resolves)
qed

theorem resolve_returns_subtree_witness:
  "[''workflow''] \<noteq> [] \<and>
   is_tree (value_at (Dict scenario_A_config) (take 1 [''workflow''])) \<and>
   value_at (Dict scenario_A_config) [''workflow''] = Some (Dict [(''FIXlam'', Str ''/out'')]) \<and>
   walk_key_path scenario_A_config [''workflow''] [] = ([], Return [(''FIXlam'', Str ''/out'')])"
proof -
  have h: "\<forall>n. 0 < n \<and> n \<le> length [''workflow''] \<longrightarrow>
             is_tree (value_at (Dict scenario_A_config) (take n [''workflow'']))"
  proof (intro allI impI)
    fix n :: nat
    assume "0 < n \<and> n \<le> length [''workflow'']"
    then have "n = 1" by simp
    then show "is_tree (value_at (Dict scenario_A_config) (take n [''workflow'']))"
      by (simp add: is_tree_def scenario_A_config_def)
  qed
  have v: "value_at (Dict scenario_A_config) [''workflow''] = Some (Dict [(''FIXlam'', Str ''/out'')])"
    by (simp add: scenario_A_config_def)
  have t: "is_tree (value_at (Dict scenario_A_config) (take 1 [''workflow'']))"
    by (simp add: is_tree_def scenario_A_config_def)
  from resolve_returns_subtree [of "[''workflow'']" scenario_A_config "[]", OF _ h] v t
  show ?thesis by simp
qed

text \<open>
  Claim C2. When the tree reached after \<open>i\<close> keys (every earlier step having entered
  a nested tree) lacks key number \<open>i\<close> of the path, \<open>_walk_key_path\<close> fails: it
  re-raises the \<open>KeyError\<close> for that key, and the one message it logs carries the
  trail made of the first \<open>i + 1\<close> keys joined by \<open>" -> "\<close>. The witness is
  scenario D of the specification, with trail \<open>workflow -> missing\<close>.
\<close>

theorem resolve_missing_key_trail:
  assumes "i < length key_path"
    and "value_at (Dict config) (take i key_path) = Some (Dict e)"
    and "map_of e (key_path ! i) = None"
  shows "walk_key_path config key_path lg =
           (lg @ [(ERROR, ''Bad config path: '' @ str_join '' -> '' (take (Suc i) key_path))],
            Raise (KeyError (key_path ! i)))"
  using walk_loop_missing [OF assms, of "[]"] by (simp add: walk_key_path_def)

theorem resolve_missing_key_trail_scenario_D:
  "(1::nat) < length [''workflow'', ''missing''] \<and>
   value_at (Dict scenario_A_config) (take 1 [''workflow'', ''missing'']) =
     Some (Dict [(''FIXlam'', Str ''/out'')]) \<and>
   map_of [(''FIXlam'', Str ''/out'')] ([''workflow'', ''missing''] ! 1) = None \<and>
   walk_key_path scenario_A_config [''workflow'', ''missing''] [] =
     ([(ERROR, ''Bad config path: workflow -> missing'')], Raise (KeyError ''missing''))"
proof -
  have a: "(1::nat) < length [''workflow'', ''missing'']" by simp
  have b: "value_at (Dict scenario_A_config) (take 1 [''workflow'', ''missing'']) =
             Some (Dict [(''FIXlam'', Str ''/out'')])"
    by (simp add: scenario_A_config_def)
  have c: "map_of [(''FIXlam'', Str ''/out'')] ([''workflow'', ''missing''] ! 1) = None"
    by simp
  from resolve_missing_key_trail [OF a b c, of "[]"] a b c show ?thesis by simp
qed

text \<open>
  Claim C3, as the code has it. \<open>_walk_key_path\<close> has no check of the length of the
  path: with no keys the loop body never runs, nothing is logged, and the tree that
  was passed in is returned.
\<close>

theorem resolve_empty_path_returns_input:
  "walk_key_path config [] lg = (lg, Return config)"
  by (simp add: walk_key_path_def)

text \<open>
  Claim C3 as stated (a path of length zero is rejected) fails on the configuration
  of scenario A: the call returns that configuration.
\<close>

theorem resolve_empty_path_not_rejected:
  "walk_key_path scenario_A_config [] [] = ([], Return scenario_A_config)"
  by (simp add: walk_key_path_def)

text \<open>
  Claim C4. When the step for key number \<open>i\<close> of the path finds a value that is
  present but is not a nested tree, \<open>_walk_key_path\<close> fails at that step: it logs
  one message naming the trail of the first \<open>i + 1\<close> keys, the last of them the
  offending key, and leaves through \<open>sys.exit(1)\<close>.
\<close>

theorem resolve_non_tree_exits:
  assumes "i < length key_path"
    and "value_at (Dict config) (take (Suc i) key_path) = Some v"
    and "\<not> is_tree (Some v)"
  shows "walk_key_path config key_path lg =
           (lg @ [(ERROR, ''Value at '' @ str_join '' -> '' (take (Suc i) key_path) @
                          '' must be a dictionary'')],
            Exit 1)"
  using walk_loop_not_tree [OF assms, of "[]"] by (simp add: walk_key_path_def)

theorem resolve_non_tree_exits_witness:
  "(1::nat) < length [''workflow'', ''FIXlam'', ''x''] \<and>
   value_at (Dict scenario_A_config) (take (Suc 1) [''workflow'', ''FIXlam'', ''x'']) =
     Some (Str ''/out'') \<and>
   \<not> is_tree (Some (Str ''/out'')) \<and>
   walk_key_path scenario_A_config [''workflow'', ''FIXlam'', ''x''] [] =
     ([(ERROR, ''Value at workflow -> FIXlam must be a dictionary'')], Exit 1)"
proof -
  have a: "(1::nat) < length [''workflow'', ''FIXlam'', ''x'']" by simp
  have b: "value_at (Dict scenario_A_config) (take (Suc 1) [''workflow'', ''FIXlam'', ''x'']) =
             Some (Str ''/out'')"
    by (simp add: scenario_A_config_def)
  have c: "\<not> is_tree (Some (Str ''/out''))" by (simp add: is_tree_def)
  from resolve_non_tree_exits [OF a b c, of "[]"] a b c show ?thesis by simp
qed

section \<open>Properties of \<open>link_files\<close>\<close>

lemma split_on_no_sep: "x \<in> set (split_on c s) \<Longrightarrow> c \<notin> set x"
proof (induction s arbitrary: x)
  case Nil
  then show ?case by simp
next
  case (Cons a s)
  then show ?case
    by (cases "split_on c s") (auto split: if_splits)
qed

lemma split_on_plain: "c \<notin> set s \<Longrightarrow> split_on c s = [s]"
  by (induction s) auto

lemma Path_plain:
  assumes "CHR ''/'' \<notin> set n" "n \<noteq> []" "n \<noteq> ''.''"
  shows "Path n = [n]"
proof -
  from assms(1,2) have "take 1 n \<noteq> ''/''" "take 2 n \<noteq> ''//''"
    by (cases n; auto simp: take_Suc_conv_app_nth)+
  with assms show ?thesis
    by (simp add: Path_def split_on_plain)
qed

lemma path_name_Path:
  assumes "path_name (Path s) \<noteq> []"
  shows "CHR ''/'' \<notin> set (path_name (Path s)) \<and> path_name (Path s) \<noteq> ''.''"
proof -
  define parts where "parts = filter (\<lambda>c. c \<noteq> [] \<and> c \<noteq> ''.'') (split_on CHR ''/'' s)"
  define root where "root = (if take 2 s = ''//'' \<and> take 3 s \<noteq> ''///'' then ''//''
                  else if take 1 s = ''/'' then ''/'' else [])"
  have P: "Path s = (if root = [] then parts else root # parts)"
    by (simp add: Path_def parts_def root_def Let_def)
  have r: "root \<noteq> [] \<Longrightarrow> is_root root"
    by (auto simp: root_def is_root_def split: if_splits)
  have parts: "\<And>x. x \<in> set parts \<Longrightarrow> CHR ''/'' \<notin> set x \<and> x \<noteq> ''.''"
    unfolding parts_def using split_on_no_sep by fastforce
  have "path_name (Path s) \<in> set parts"
  proof (cases "root = []")
    case True
    with assms P show ?thesis
      by (auto simp: path_name_def split: if_splits)
  next
    case False
    with assms P r have "parts \<noteq> []"
      by (auto simp: path_name_def split: if_splits)
    with False assms P show ?thesis
      by (auto simp: path_name_def split: if_splits)
  qed
  then show ?thesis using parts by blast
qed

lemma link_name_cases:
  "link_name d f = (if path_name (Path f) = [] then d else d @ [path_name (Path f)])"
proof (cases "path_name (Path f) = []")
  case True
  then show ?thesis
    by (simp add: link_name_def joinpath_def Path_def is_absolute_def)
next
  case False
  with path_name_Path [of f] have "Path (path_name (Path f)) = [path_name (Path f)]"
    by (intro Path_plain) auto
  moreover from False path_name_Path [of f] have "\<not> is_root (path_name (Path f))"
    by (auto simp: is_root_def)
  ultimately show ?thesis using False
    by (simp add: link_name_def joinpath_def is_absolute_def)
qed


lemma link_name_parent:
  "link_name d f \<noteq> d \<Longrightarrow> butlast (link_name d f) = d"
  by (auto simp: link_name_cases split: if_splits)


lemma occupied_cong: "f p = g p \<Longrightarrow> occupied f p = occupied g p"
  by (simp add: occupied_def is_symlink_def)

lemma symlink_to_Inr:
  "symlink_to f p t = Inr g \<Longrightarrow> g = f(p \<mapsto> Symlink t) \<and> f p = None"
  by (cases "dir_at f (butlast p)")
     (auto simp: symlink_to_def split: if_splits node.splits)







lemma link_files_step:
  "(\<exists>e w'. link_files d (f # rest) w = (w', Raise e) \<and>
            (\<forall>p. occupied (files w) p \<longrightarrow> files w' p = files w p)) \<or>
   (\<exists>w'. link_files d (f # rest) w = link_files d rest w' \<and>
          (\<forall>p. occupied (files w) p \<longrightarrow> files w' p = files w p) \<and>
          \<not> occupied (files w) (link_name d f))"
proof -
  let ?ln = "link_name d f"
  let ?msg = "(INFO, ''Linking '' @ path_str ?ln @ '' -> '' @ path_str (Path f))"
  show ?thesis
  proof (cases "is_symlink (files w) ?ln")
    case True
    then obtain t where t: "files w ?ln = Some (Symlink t)"
      by (auto simp: is_symlink_def split: option.splits node.splits)
    then have u: "unlink (files w) ?ln = Inr ((files w)(?ln := None))"
      by (simp add: unlink_def)
    from True have no: "\<not> occupied (files w) ?ln" by (simp add: occupied_def)
    have keep: "\<And>p. occupied (files w) p \<Longrightarrow> p \<noteq> ?ln" using no by auto
    show ?thesis
    proof (cases "symlink_to ((files w)(?ln := None)) ?ln (Path f)")
      case (Inl e)
      with True u have "link_files d (f # rest) w =
          (w\<lparr>logged := logged w @ [?msg], files := (files w)(?ln := None)\<rparr>, Raise e)"
        by (simp add: link_name_def [symmetric] Let_def)
      with keep show ?thesis by auto
    next
      case (Inr f2)
      then have f2: "f2 = (files w)(?ln \<mapsto> Symlink (Path f))"
        by (auto dest: symlink_to_Inr)
      from Inr True u have "link_files d (f # rest) w =
          link_files d rest (w\<lparr>logged := logged w @ [?msg], files := f2\<rparr>)"
        by (simp add: link_name_def [symmetric] Let_def)
      with keep f2 no show ?thesis by auto
    qed
  next
    case False
    show ?thesis
    proof (cases "symlink_to (files w) ?ln (Path f)")
      case (Inl e)
      with False have "link_files d (f # rest) w =
          (w\<lparr>logged := logged w @ [?msg]\<rparr>, Raise e)"
        by (simp add: link_name_def [symmetric] Let_def)
      then show ?thesis by auto
    next
      case (Inr f2)
      then have f2: "f2 = (files w)(?ln \<mapsto> Symlink (Path f))" and free: "files w ?ln = None"
        by (auto dest: symlink_to_Inr)
      from free have no: "\<not> occupied (files w) ?ln" by (simp add: occupied_def)
      have keep: "\<And>p. occupied (files w) p \<Longrightarrow> p \<noteq> ?ln" using no by auto
      from Inr False have "link_files d (f # rest) w =
          link_files d rest (w\<lparr>logged := logged w @ [?msg], files := f2\<rparr>)"
        by (simp add: link_name_def [symmetric] Let_def)
      with keep f2 no show ?thesis by auto
    qed
  qed
qed

lemma link_files_keeps_occupied:
  "occupied (files w) p \<Longrightarrow> files (fst (link_files d srcs w)) p = files w p"
proof (induction srcs arbitrary: w)
  case Nil
  then show ?case by simp
next
  case (Cons f rest)
  from link_files_step [of d f rest w] show ?case
  proof (elim disjE exE conjE)
    fix e w'
    assume "link_files d (f # rest) w = (w', Raise e)"
      and "\<forall>p. occupied (files w) p \<longrightarrow> files w' p = files w p"
    with Cons.prems show ?thesis by simp
  next
    fix w'
    assume eq: "link_files d (f # rest) w = link_files d rest w'"
      and keep: "\<forall>p. occupied (files w) p \<longrightarrow> files w' p = files w p"
    from keep Cons.prems have same: "files w' p = files w p" by simp
    with Cons.prems have "occupied (files w') p" using occupied_cong by metis
    from Cons.IH [OF this] eq same show ?thesis by simp
  qed
qed

lemma link_files_occupied_raises:
  "f \<in> set srcs \<Longrightarrow> occupied (files w) (link_name d f) \<Longrightarrow>
   \<exists>e. snd (link_files d srcs w) = Raise e"
proof (induction srcs arbitrary: w)
  case Nil
  then show ?case by simp
next
  case (Cons g rest)
  from link_files_step [of d g rest w] show ?case
  proof (elim disjE exE conjE)
    fix e w'
    assume "link_files d (g # rest) w = (w', Raise e)"
    then show ?thesis by simp
  next
    fix w'
    assume eq: "link_files d (g # rest) w = link_files d rest w'"
      and keep: "\<forall>p. occupied (files w) p \<longrightarrow> files w' p = files w p"
      and no: "\<not> occupied (files w) (link_name d g)"
    from no Cons.prems have "f \<in> set rest" by auto
    moreover from keep Cons.prems(2) have "occupied (files w') (link_name d f)"
      using occupied_cong by metis
    ultimately show ?thesis using Cons.IH eq by simp
  qed
qed












text \<open>
  Claim C9. If the link name of some source is taken by a regular file or a
  directory, \<open>link_files\<close> ends with an exception and that entry is still there,
  unchanged; indeed every entry that is not a symbolic link survives the call
  unchanged, whatever the destination and the sources are.
\<close>

theorem link_files_keeps_non_links:
  assumes "f \<in> set srcs"
    and "occupied (files w) (link_name d f)"
  shows "(\<exists>e. snd (link_files d srcs w) = Raise e) \<and>
         files (fst (link_files d srcs w)) (link_name d f) = files w (link_name d f) \<and>
         (\<forall>p. occupied (files w) p \<longrightarrow> files (fst (link_files d srcs w)) p = files w p)"
proof (intro conjI)
  show "\<exists>e. snd (link_files d srcs w) = Raise e"
    by (rule link_files_occupied_raises [OF assms])
  show "files (fst (link_files d srcs w)) (link_name d f) = files w (link_name d f)"
    by (rule link_files_keeps_occupied [OF assms(2)])
  show "\<forall>p. occupied (files w) p \<longrightarrow> files (fst (link_files d srcs w)) p = files w p"
    by (simp add: link_files_keeps_occupied)
qed

theorem link_files_keeps_non_links_witness:
  "''/run/data.nc'' \<in> set [''/run/data.nc''] \<and>
   occupied (files collision_world) (link_name [''/'', ''out''] ''/run/data.nc'') \<and>
   (\<exists>e. snd (link_files [''/'', ''out''] [''/run/data.nc''] collision_world) = Raise e) \<and>
   files (fst (link_files [''/'', ''out''] [''/run/data.nc''] collision_world))
     [''/'', ''out'', ''data.nc''] = Some File"
proof -
  have ln: "link_name [''/'', ''out''] ''/run/data.nc'' = [''/'', ''out'', ''data.nc'']"
    by (simp add: link_name_def joinpath_def Path_def path_name_def is_absolute_def is_root_def)
  have a: "''/run/data.nc'' \<in> set [''/run/data.nc'']" by simp
  have b: "occupied (files collision_world) (link_name [''/'', ''out''] ''/run/data.nc'')"
    by (simp add: ln occupied_def is_symlink_def collision_world_def scenario_B_world_def)
  have c: "files collision_world [''/'', ''out'', ''data.nc''] = Some File"
    by (simp add: collision_world_def scenario_B_world_def)
  from link_files_keeps_non_links [OF a b] a b c show ?thesis
    by (simp add: ln)
qed

section \<open>Properties of \<open>run_fcst\<close>\<close>

lemma is_file_absent: "f p = None \<Longrightarrow> \<not> is_file f p"
  by (simp add: is_file_def eval_nat_numeral)

lemma is_file_regular: "f p = Some File \<Longrightarrow> is_file f p"
  by (simp add: is_file_def eval_nat_numeral)

lemma load_global_link_files: "load_global ''_link_files'' = Inl (NameError ''_link_files'')"
  by (simp add: load_global_def module_globals_def)

lemma load_global_run_fv3: "load_global ''run_fv3'' = Inl (NameError ''run_fv3'')"
  by (simp add: load_global_def module_globals_def)

lemma deliver_raises: "\<exists>e. deliver X expt_config rundir w = (w, Raise e)"
  by (cases "fix_lam_path_of expt_config") (simp_all add: deliver_def load_global_link_files)

text \<open>
  Whatever the collaborators do, \<open>run_fcst\<close> has no run that returns: past the
  marker check, line 117 calls a name the module does not define.
\<close>

lemma run_fcst_never_returns:
  "snd (run_fcst X config_file cycle key_path member w0) \<noteq> Return u"
proof -
  have d: "snd (deliver X c r w) \<noteq> Return v" for c r w v
    using deliver_raises [of X c r w] by auto
  show ?thesis
    by (auto simp: run_fcst_def Let_def d split: outcome.splits sum.splits prod.splits)
qed

lemma main_raises:
  "argparse X argv = Return a \<Longrightarrow> main X argv w = (w, Raise (NameError ''run_fv3''))"
  by (cases a) (simp add: main_def load_global_run_fv3)

text \<open>
  Claim C6. Take any run in which the configuration loads, the driver is built and
  names its run directory, and \<open>run()\<close> returns leaving a world \<open>w3\<close> in which the
  driver's marker \<open>runscript.fv3.done\<close> is absent from the run directory. Then
  \<open>run_fcst\<close> ends in \<open>sys.exit(1)\<close>, so the process status is not zero, and it ends
  in the world \<open>w3\<close> with one error message added to the log: the file system is
  the one \<open>run()\<close> left, with no link created and no marker of this step written.
\<close>

theorem run_fcst_marker_absent:
  assumes "get_yaml_config X config_file w0 = Return expt_config"
    and "FV3 X config_file cycle key_path
           (w0\<lparr>environ := (environ w0)(''MEMBER'' \<mapsto> member)\<rparr>) = Return driver_config"
    and "rundir_of driver_config = Inr rundir"
    and "FV3_run X config_file cycle key_path
           (w0\<lparr>environ := (environ w0)(''MEMBER'' \<mapsto> member),
               logged := logged w0 @ [(INFO, ''Will run FV3 in '' @ path_str rundir)]\<rparr>) =
         (w3, Return ())"
    and "files w3 (joinpath rundir ''runscript.fv3.done'') = None"
  shows "run_fcst X config_file cycle key_path member w0 =
           (w3\<lparr>logged := logged w3 @
                 [(ERROR, ''Error occurred running FV3. Please see component error logs.'')]\<rparr>,
            Exit 1) \<and>
         exit_status (snd (run_fcst X config_file cycle key_path member w0)) \<noteq> 0 \<and>
         files (fst (run_fcst X config_file cycle key_path member w0)) = files w3"
proof -
  from assms(5) have "\<not> is_file (files w3) (joinpath rundir ''runscript.fv3.done'')"
    by (rule is_file_absent)
  with assms(1-4) have
    "run_fcst X config_file cycle key_path member w0 =
       (w3\<lparr>logged := logged w3 @
             [(ERROR, ''Error occurred running FV3. Please see component error logs.'')]\<rparr>,
        Exit 1)"
    by (simp add: run_fcst_def Let_def)
  then show ?thesis by (simp add: exit_status_def)
qed

theorem run_fcst_marker_absent_scenario_C:
  "files scenario_C_world (joinpath [''/'', ''run''] ''runscript.fv3.done'') = None \<and>
   snd (run_fcst scenario_B_ext [''config.yaml''] () [''task_run_fcst'', ''fv3''] ''000''
          scenario_C_world) = Exit 1 \<and>
   exit_status (snd (run_fcst scenario_B_ext [''config.yaml''] () [''task_run_fcst'', ''fv3'']
                       ''000'' scenario_C_world)) \<noteq> 0 \<and>
   files (fst (run_fcst scenario_B_ext [''config.yaml''] () [''task_run_fcst'', ''fv3''] ''000''
                 scenario_C_world)) = files scenario_C_world"
proof -
  let ?w1 = "scenario_C_world\<lparr>environ := (environ scenario_C_world)(''MEMBER'' \<mapsto> ''000'')\<rparr>"
  let ?w2 = "scenario_C_world\<lparr>environ := (environ scenario_C_world)(''MEMBER'' \<mapsto> ''000''),
               logged := logged scenario_C_world @
                 [(INFO, ''Will run FV3 in '' @ path_str [''/'', ''run''])]\<rparr>"
  have a: "get_yaml_config scenario_B_ext [''config.yaml''] scenario_C_world =
             Return scenario_A_config"
    by (simp add: scenario_B_ext_def)
  have b: "FV3 scenario_B_ext [''config.yaml''] () [''task_run_fcst'', ''fv3''] ?w1 =
             Return [(''rundir'', Str ''/run'')]"
    by (simp add: scenario_B_ext_def)
  have c: "rundir_of [(''rundir'', Str ''/run'')] = Inr [''/'', ''run'']"
    by (simp add: rundir_of_def Path_def)
  have d: "FV3_run scenario_B_ext [''config.yaml''] () [''task_run_fcst'', ''fv3''] ?w2 =
             (?w2, Return ())"
    by (simp add: scenario_B_ext_def)
  have j: "joinpath [''/'', ''run''] ''runscript.fv3.done'' =
             [''/'', ''run'', ''runscript.fv3.done'']"
    by (simp add: joinpath_def Path_def is_absolute_def is_root_def)
  have e: "files ?w2 (joinpath [''/'', ''run''] ''runscript.fv3.done'') = None"
    by (simp add: j scenario_C_world_def)
  have e': "files scenario_C_world (joinpath [''/'', ''run''] ''runscript.fv3.done'') = None"
    by (simp add: j scenario_C_world_def)
  from run_fcst_marker_absent [OF a b c d e] e' show ?thesis
    by (simp add: exit_status_def)
qed

text \<open>
  Claim C8 on the code. In the run of scenario B the driver's marker is in the run
  directory, \<open>data.nc\<close> is there, and \<open>workflow -> FIXlam\<close> is \<open>/out\<close>. \<open>run_fcst\<close>
  passes the marker check and reads the destination, and then line 117 raises
  \<open>NameError\<close> for \<open>_link_files\<close>: there is no link at \<open>/out/data.nc\<close> and no
  \<open>run_fcst_task_complete.txt\<close> in the run directory when it ends.
\<close>

theorem run_fcst_scenario_B_name_error:
  "is_file (files scenario_B_world) (joinpath [''/'', ''run''] ''runscript.fv3.done'') \<and>
   fix_lam_path_of scenario_A_config = Inr [''/'', ''out''] \<and>
   snd (run_fcst scenario_B_ext [''config.yaml''] () [''task_run_fcst'', ''fv3''] ''000''
          scenario_B_world) = Raise (NameError ''_link_files'') \<and>
   files (fst (run_fcst scenario_B_ext [''config.yaml''] () [''task_run_fcst'', ''fv3''] ''000''
                 scenario_B_world)) [''/'', ''out'', ''data.nc''] = None \<and>
   files (fst (run_fcst scenario_B_ext [''config.yaml''] () [''task_run_fcst'', ''fv3''] ''000''
                 scenario_B_world)) [''/'', ''run'', ''run_fcst_task_complete.txt''] = None"
proof -
  have j: "joinpath [''/'', ''run''] ''runscript.fv3.done'' =
             [''/'', ''run'', ''runscript.fv3.done'']"
    by (simp add: joinpath_def Path_def is_absolute_def is_root_def)
  have c: "rundir_of [(''rundir'', Str ''/run'')] = Inr [''/'', ''run'']"
    by (simp add: rundir_of_def Path_def)
  have m: "is_file (files scenario_B_world) [''/'', ''run'', ''runscript.fv3.done'']"
    by (rule is_file_regular) (simp add: scenario_B_world_def scenario_B_files_def)
  have x: "fix_lam_path_of scenario_A_config = Inr [''/'', ''out'']"
    by (simp add: fix_lam_path_of_def scenario_A_config_def Path_def)
  have r: "run_fcst scenario_B_ext [''config.yaml''] () [''task_run_fcst'', ''fv3''] ''000''
             scenario_B_world =
           (scenario_B_world\<lparr>environ := (environ scenario_B_world)(''MEMBER'' \<mapsto> ''000''),
              logged := logged scenario_B_world @
                [(INFO, ''Will run FV3 in '' @ path_str [''/'', ''run''])]\<rparr>,
            Raise (NameError ''_link_files''))"
    using m by (simp add: run_fcst_def scenario_B_ext_def c j x deliver_def
                  load_global_link_files)
  show ?thesis
    by (simp add: r j m x) (simp add: scenario_B_world_def scenario_B_files_def)
qed

text \<open>
  Claim C7, as the code has it. Line 114 reads the destination by subscripting the
  loaded configuration, \<open>expt_config["workflow"]["FIXlam"]\<close>, and never calls
  \<open>_walk_key_path\<close>. The lookup succeeds exactly when \<open>_walk_key_path\<close> on the
  one-key path \<open>workflow\<close> returns a tree whose \<open>FIXlam\<close> entry is a string, and
  its result is that string as a path. On a missing key it raises the \<open>KeyError\<close>
  that \<open>_walk_key_path\<close> on \<open>workflow -> FIXlam\<close> would raise (the trail is logged
  by \<open>_walk_key_path\<close> only).
\<close>

theorem fix_lam_path_direct_lookup:
  "(fix_lam_path_of config = Inr p \<longleftrightarrow>
      (\<exists>t s. walk_key_path config [''workflow''] lg = (lg, Return t) \<and>
             map_of t ''FIXlam'' = Some (Str s) \<and> p = Path s)) \<and>
   (fix_lam_path_of config = Inl (KeyError k) \<longleftrightarrow>
      snd (walk_key_path config [''workflow'', ''FIXlam''] lg) = Raise (KeyError k))"
proof (cases "map_of config ''workflow''")
  case None
  then show ?thesis
    by (auto simp: fix_lam_path_of_def walk_key_path_def)
next
  case (Some v)
  show ?thesis
  proof (cases v)
    case (Dict d)
    show ?thesis
    proof (cases "map_of d ''FIXlam''")
      case None
      with Some Dict show ?thesis
        by (auto simp: fix_lam_path_of_def walk_key_path_def)
    next
      case (Some u)
      with \<open>map_of config ''workflow'' = Some v\<close> Dict show ?thesis
        by (cases u) (auto simp: fix_lam_path_of_def walk_key_path_def)
    qed
  qed (use Some in \<open>auto simp: fix_lam_path_of_def walk_key_path_def\<close>)
qed

theorem fix_lam_path_direct_lookup_witness:
  "walk_key_path scenario_A_config [''workflow''] [] = ([], Return [(''FIXlam'', Str ''/out'')]) \<and>
   map_of [(''FIXlam'', Str ''/out'')] ''FIXlam'' = Some (Str ''/out'') \<and>
   fix_lam_path_of scenario_A_config = Inr (Path ''/out'')"
proof -
  have a: "walk_key_path scenario_A_config [''workflow''] [] =
             ([], Return [(''FIXlam'', Str ''/out'')])"
    by (simp add: walk_key_path_def scenario_A_config_def)
  have b: "map_of [(''FIXlam'', Str ''/out'')] ''FIXlam'' = Some (Str ''/out'')" by simp
  from a b have "\<exists>t s. walk_key_path scenario_A_config [''workflow''] [] = ([], Return t) \<and>
                   map_of t ''FIXlam'' = Some (Str s) \<and> Path ''/out'' = Path s"
    by blast
  with fix_lam_path_direct_lookup [of scenario_A_config "Path ''/out''" "[]"] a b
  show ?thesis by blast
qed

text \<open>
  Claim C7 as stated fails on the configuration of scenario A: \<open>run_fcst\<close>'s lookup
  succeeds with \<open>/out\<close>, while \<open>_walk_key_path\<close> on \<open>workflow -> FIXlam\<close> finds a
  string where it wants a dictionary and leaves through \<open>sys.exit(1)\<close>.
\<close>

theorem fix_lam_path_not_walk_key_path:
  "fix_lam_path_of scenario_A_config = Inr [''/'', ''out''] \<and>
   walk_key_path scenario_A_config [''workflow'', ''FIXlam''] [] =
     ([(ERROR, ''Value at workflow -> FIXlam must be a dictionary'')], Exit 1)"
  by (simp add: fix_lam_path_of_def walk_key_path_def scenario_A_config_def Path_def)

section \<open>\<open>_walk_key_path\<close> and the store\<close>

lemma walk_loop_heap_store: "fst (walk_loop_heap h a keys p ks lg) = h"
proof (induction ks arbitrary: a keys p)
  case Nil
  show ?case by simp
next
  case (Cons k ks)
  show ?case
  proof (cases "h a")
    case None
    then show ?thesis by simp
  next
    case (Some ob)
    show ?thesis
    proof (cases ob)
      case (HList xs)
      with Some show ?thesis by simp
    next
      case (HDict d)
      show ?thesis
      proof (cases "map_of d k")
        case None
        with Some HDict show ?thesis by simp
      next
        case (Some v)
        with \<open>h a = Some ob\<close> HDict Cons.IH show ?thesis
          by (cases v) (simp_all add: Let_def)
      qed
    qed
  qed
qed

text \<open>
  The walk over the store does what the walk over trees does: when the address
  passed in stands for the tree \<open>t\<close>, both log the same messages and end the same
  way, and the address returned stands for the tree returned.
\<close>

lemma items_of_lookup:
  "items_of n h d = Some t \<Longrightarrow>
   (case map_of d k of
      None \<Rightarrow> map_of t k = None
    | Some v \<Rightarrow> \<exists>c. tree_of n h v = Some c \<and> map_of t k = Some c)"
proof (induction d arbitrary: t)
  case Nil
  then show ?case by simp
next
  case (Cons kv d)
  obtain k' v' where kv: "kv = (k', v')" by (cases kv)
  from Cons.prems kv obtain c t' where
    c: "tree_of n h v' = Some c" and t': "items_of n h d = Some t'" and t: "t = (k', c) # t'"
    by (auto split: option.splits)
  from Cons.IH [OF t'] kv c t show ?case by (auto split: option.splits)
qed

lemma tree_of_Dict:
  "tree_of n h v = Some (Dict s) \<Longrightarrow>
   \<exists>b m e. v = HRef b \<and> n = Suc m \<and> h b = Some (HDict e) \<and> items_of m h e = Some s"
  by (cases v; cases n) (auto split: option.splits hobj.splits)

lemma tree_of_not_Dict:
  "tree_of n h v = Some c \<Longrightarrow> \<not> is_tree (Some c) \<Longrightarrow> \<not> isinstance_dict h v"
  by (cases v; cases n)
     (auto simp: isinstance_dict_def is_tree_def split: option.splits hobj.splits)

lemma walk_loop_heap_simulates:
  assumes "h a = Some (HDict d)" and "items_of n h d = Some t"
  shows "case walk_loop t keys p ks lg of
           (lg', Return s) \<Rightarrow>
             (\<exists>b m e. walk_loop_heap h a keys p ks lg = (h, lg', Return b) \<and>
                      h b = Some (HDict e) \<and> items_of m h e = Some s)
         | (lg', Raise x) \<Rightarrow> walk_loop_heap h a keys p ks lg = (h, lg', Raise x)
         | (lg', Exit c) \<Rightarrow> walk_loop_heap h a keys p ks lg = (h, lg', Exit c)"
  using assms
proof (induction ks arbitrary: a d n t keys p)
  case Nil
  then show ?case by auto
next
  case (Cons k ks)
  show ?case
  proof (cases "map_of d k")
    case None
    with items_of_lookup [OF Cons.prems(2), of k] have "map_of t k = None" by simp
    with None Cons.prems(1) show ?thesis by (simp add: Let_def)
  next
    case (Some v)
    with items_of_lookup [OF Cons.prems(2), of k] obtain c where
      c: "tree_of n h v = Some c" and tk: "map_of t k = Some c" by auto
    show ?thesis
    proof (cases "is_tree (Some c)")
      case True
      then obtain s where s: "c = Dict s"
        by (auto simp: is_tree_def split: cfg.splits)
      with c tree_of_Dict [of n h v s] obtain b m e where
        v: "v = HRef b" and hb: "h b = Some (HDict e)" and e: "items_of m h e = Some s"
        by auto
      from v hb have inst: "isinstance_dict h v" by (simp add: isinstance_dict_def)
      have l: "walk_loop t keys p (k # ks) lg =
                 walk_loop s (keys @ [k]) (str_join '' -> '' (keys @ [k])) ks lg"
        using tk s by (simp add: Let_def)
      have r: "walk_loop_heap h a keys p (k # ks) lg =
                 walk_loop_heap h b (keys @ [k]) (str_join '' -> '' (keys @ [k])) ks lg"
        using Cons.prems(1) Some inst v by (simp add: Let_def)
      from Cons.IH [OF hb e] show ?thesis unfolding l r .
    next
      case False
      with c have n: "\<not> isinstance_dict h v" by (rule tree_of_not_Dict)
      from False have "walk_loop t keys p (k # ks) lg =
          (lg @ [(ERROR, ''Value at '' @ str_join '' -> '' (keys @ [k]) @
                         '' must be a dictionary'')], Exit 1)"
        using tk by (cases c) (simp_all add: is_tree_def Let_def)
      moreover have "walk_loop_heap h a keys p (k # ks) lg =
          (h, lg @ [(ERROR, ''Value at '' @ str_join '' -> '' (keys @ [k]) @
                            '' must be a dictionary'')], Exit 1)"
        using Cons.prems(1) Some n by (simp add: Let_def)
      ultimately show ?thesis by simp
    qed
  qed
qed

text \<open>
  Claim C10. Whatever the store, the address and the key path, and whether the walk
  returns, raises or exits, the store after \<open>_walk_key_path\<close> is the store before
  it; so the tree that the caller's reference stands for is the same tree.
\<close>

theorem walk_key_path_keeps_config:
  "fst (walk_key_path_heap h config key_path lg) = h \<and>
   tree_of n (fst (walk_key_path_heap h config key_path lg)) (HRef config) =
     tree_of n h (HRef config)"
  by (simp add: walk_key_path_heap_def walk_loop_heap_store)

end
